theory Spec2Isabelle
  imports Main "HOL-Library.Sublist"
begin

section \<open>The patch script \<open>update_peer.py\<close>\<close>

text \<open>
  The script reads one file, applies two literal substitutions with Python's
  \<^verbatim>\<open>str.replace\<close>, writes the file back and prints one line. Text is modelled as a
  list of characters. All four literals of the script are ASCII, so a character
  outside ASCII in the file (held here as its UTF-8 bytes, all of them above 127) can
  never take part in a match.
\<close>

subsection \<open>Python's \<open>str.replace\<close>\<close>

text \<open>
  \<^verbatim>\<open>s.replace(old, new)\<close> with a non-empty \<open>old\<close> scans \<open>s\<close> from the left: where
  \<open>old\<close> starts at the current position it emits \<open>new\<close> and skips \<open>old\<close>, otherwise it
  copies one character. The third argument is the text still to be scanned.
\<close>

function replace_from :: "'a list \<Rightarrow> 'a list \<Rightarrow> 'a list \<Rightarrow> 'a list" where
  "replace_from old new [] = []"
| "replace_from old new (c # cs) =
     (if old \<noteq> [] \<and> prefix old (c # cs)
      then new @ replace_from old new (drop (length old) (c # cs))
      else c # replace_from old new cs)"
  by pat_completeness auto
termination
  by (relation "measure (\<lambda>(old, new, s). length s)") auto

text \<open>
  With an empty \<open>old\<close>, Python inserts \<open>new\<close> before every character and at the end:
  \<^verbatim>\<open>"abc".replace("", "-") == "-a-b-c-"\<close>.
\<close>

definition replace :: "'a list \<Rightarrow> 'a list \<Rightarrow> 'a list \<Rightarrow> 'a list" where
  "replace s old new =
     (if old = [] then new @ concat (map (\<lambda>c. c # new) s)
      else replace_from old new s)"

subsection \<open>The constants of the script\<close>

definition file_path :: string where
  "file_path = ''src/hooks/use-peer-game.ts''"

definition old_init_peer :: string where
  "old_init_peer =
     ''    const initPeer = async () => {'' @ [CHR 0x0A] @
     ''      const peerOptions: ConstructorParameters<typeof Peer>[1] = {}''"

definition new_init_peer :: string where
  "new_init_peer =
     ''    const initPeer = async () => {'' @ [CHR 0x0A] @
     ''      const { default: Peer } = await import('' @ [CHR 0x27] @ ''peerjs'' @ [CHR 0x27] @ '')'' @ [CHR 0x0A] @
     ''      const peerOptions: ConstructorParameters<typeof Peer>[1] = {}''"

definition old_join_guest :: string where
  "old_join_guest =
     ''    const joinAsGuest = () => {'' @ [CHR 0x0A] @
     ''      const peerOptions: ConstructorParameters<typeof Peer>[1] = {}''"

definition new_join_guest :: string where
  "new_join_guest =
     ''    const joinAsGuest = async () => {'' @ [CHR 0x0A] @
     ''      const { default: Peer } = await import('' @ [CHR 0x27] @ ''peerjs'' @ [CHR 0x27] @ '')'' @ [CHR 0x0A] @
     ''      const peerOptions: ConstructorParameters<typeof Peer>[1] = {}''"

text \<open>The two assignments \<^verbatim>\<open>content = content.replace(...)\<close>, in the script's order.\<close>

definition transform :: "string \<Rightarrow> string" where
  "transform content =
     replace (replace content old_init_peer new_init_peer) old_join_guest new_join_guest"

subsection \<open>The process and its environment\<close>

text \<open>
  What \<^verbatim>\<open>open\<close> can raise here. The script has no \<^verbatim>\<open>try\<close>, so a raised error ends
  the run: the interpreter prints a traceback and exits with status 1.
\<close>

datatype error = FileNotFoundError | PermissionError

datatype outcome = Finished | Uncaught error

fun exit_status :: "outcome \<Rightarrow> nat" where
  "exit_status Finished = 0"
| "exit_status (Uncaught e) = 1"

record file_entry =
  data :: string
  readable :: bool
  writable :: bool

datatype open_mode = ReadMode | WriteMode

datatype io_event = Open string open_mode

text \<open>
  The world a run sees: the files by path, whether a missing path may be created, the
  command line and the environment variables, the lines printed so far, and the log of
  every call of \<^verbatim>\<open>open\<close> (successful or not).
\<close>

record world =
  fs :: "string \<rightharpoonup> file_entry"
  can_create :: "string \<Rightarrow> bool"
  argv :: "string list"
  environ :: "string \<rightharpoonup> string"
  stdout :: "string list"
  trace :: "io_event list"

text \<open>\<^verbatim>\<open>with open(p, 'r') as f: content = f.read()\<close>\<close>

definition read_text :: "string \<Rightarrow> world \<Rightarrow> (error + string) \<times> world" where
  "read_text p w =
     (let w' = w\<lparr>trace := trace w @ [Open p ReadMode]\<rparr> in
      case fs w p of
        None \<Rightarrow> (Inl FileNotFoundError, w')
      | Some f \<Rightarrow> if readable f then (Inr (data f), w') else (Inl PermissionError, w'))"

text \<open>
  \<^verbatim>\<open>with open(p, 'w') as f: f.write(content)\<close>. Mode \<^verbatim>\<open>'w'\<close> truncates an existing
  file and creates a missing one; a refused \<^verbatim>\<open>open\<close> leaves the file as it was.
\<close>

definition write_text :: "string \<Rightarrow> string \<Rightarrow> world \<Rightarrow> (error + unit) \<times> world" where
  "write_text p content w =
     (let w' = w\<lparr>trace := trace w @ [Open p WriteMode]\<rparr> in
      case fs w p of
        None \<Rightarrow>
          if can_create w p
          then (Inr (), w'\<lparr>fs := (fs w)(p \<mapsto> \<lparr>data = content, readable = True, writable = True\<rparr>)\<rparr>)
          else (Inl PermissionError, w')
      | Some f \<Rightarrow>
          if writable f
          then (Inr (), w'\<lparr>fs := (fs w)(p \<mapsto> f\<lparr>data := content\<rparr>)\<rparr>)
          else (Inl PermissionError, w'))"

definition print_line :: "string \<Rightarrow> world \<Rightarrow> world" where
  "print_line s w = w\<lparr>stdout := stdout w @ [s]\<rparr>"

text \<open>The script, top to bottom.\<close>

definition main :: "world \<Rightarrow> outcome \<times> world" where
  "main w0 =
     (case read_text file_path w0 of
        (Inl e, w1) \<Rightarrow> (Uncaught e, w1)
      | (Inr content0, w1) \<Rightarrow>
          (let content1 = replace content0 old_init_peer new_init_peer;
               content2 = replace content1 old_join_guest new_join_guest
           in case write_text file_path content2 w1 of
                (Inl e, w2) \<Rightarrow> (Uncaught e, w2)
              | (Inr u, w2) \<Rightarrow> (Finished, print_line ''File updated successfully'' w2)))"


subsection \<open>Notions used to state the properties\<close>


text \<open>
  \<open>no_overlap p new\<close>: an occurrence of \<open>p\<close> can neither lie inside \<open>new\<close> nor run
  across an end of \<open>new\<close>. No tail of \<open>new\<close> begins with \<open>p\<close> or is a beginning of \<open>p\<close>,
  and no proper non-empty tail of \<open>p\<close> begins with \<open>new\<close> or is a beginning of \<open>new\<close>.
\<close>

definition no_overlap :: "'a list \<Rightarrow> 'a list \<Rightarrow> bool" where
  "no_overlap p new =
     (list_all (\<lambda>i. \<not> prefix p (drop i new) \<and> \<not> prefix (drop i new) p) [0..<length new] \<and>
      list_all (\<lambda>j. \<not> prefix (drop j p) new \<and> \<not> prefix new (drop j p)) [1..<length p])"

text \<open>\<open>unbordered p\<close>: no proper non-empty beginning of \<open>p\<close> is also an end of \<open>p\<close>.\<close>

definition unbordered :: "'a list \<Rightarrow> bool" where
  "unbordered p = list_all (\<lambda>k. take k p \<noteq> drop (length p - k) p) [1..<length p]"

text \<open>The number of line breaks of a text.\<close>

definition line_count :: "string \<Rightarrow> nat" where
  "line_count s = length (filter (\<lambda>c. c = CHR 0x0A) s)"

text \<open>
  A world for trying the script: the target file holds \<open>content\<close> and may be read and
  written, nothing has been printed or opened yet.
\<close>

definition world_with :: "string \<Rightarrow> world" where
  "world_with content =
     \<lparr>fs = [file_path \<mapsto> \<lparr>data = content, readable = True, writable = True\<rparr>],
      can_create = (\<lambda>p. False), argv = [], environ = Map.empty, stdout = [], trace = []\<rparr>"

text \<open>The same world without the target file, and with the target file write-protected.\<close>

definition world_missing :: world where
  "world_missing = (world_with ''abc'')\<lparr>fs := Map.empty\<rparr>"

definition world_read_only :: world where
  "world_read_only =
     (world_with ''abc'')\<lparr>fs := [file_path \<mapsto> \<lparr>data = ''abc'', readable = True, writable = False\<rparr>]\<rparr>"

section \<open>Properties of \<open>replace\<close>\<close>

lemma replace_from_absent:
  "\<not> sublist old s \<Longrightarrow> replace_from old new s = s"
proof (induction s)
  case Nil
  show ?case by simp
next
  case (Cons c cs)
  from Cons.prems have np: "\<not> prefix old (c # cs)" and ns: "\<not> sublist old cs"
    by (simp_all add: sublist_Cons_right)
  from Cons.IH [OF ns] np show ?case by simp
qed

lemma replace_absent:
  "\<not> sublist old s \<Longrightarrow> replace s old new = s"
proof -
  assume a: "\<not> sublist old s"
  then have "old \<noteq> []" by auto
  with a show ?thesis by (simp add: replace_def replace_from_absent)
qed

subsection \<open>Replacing every occurrence\<close>

lemma replace_from_at_match:
  "old \<noteq> [] \<Longrightarrow> replace_from old new (old @ rest) = new @ replace_from old new rest"
  by (cases old) simp_all

lemma replace_from_segment:
  "old \<noteq> [] \<Longrightarrow> \<not> sublist old (s @ butlast old) \<Longrightarrow>
   replace_from old new (s @ old @ rest) = s @ new @ replace_from old new rest"
proof (induction s)
  case Nil
  then show ?case by (simp add: replace_from_at_match)
next
  case (Cons a s)
  from Cons.prems(2) have np: "\<not> prefix old (a # s @ butlast old)"
    and ns: "\<not> sublist old (s @ butlast old)"
    by (simp_all add: sublist_Cons_right)
  have "\<not> prefix old (a # s @ old @ rest)"
  proof
    assume a: "prefix old (a # s @ old @ rest)"
    from Cons.prems(1) have "old = butlast old @ [last old]" by simp
    then have "a # s @ old @ rest = (a # s @ butlast old) @ (last old # rest)"
      by (metis append.assoc append_Cons append_Nil)
    with a have "prefix old ((a # s @ butlast old) @ (last old # rest))" by simp
    moreover have "length old \<le> length (a # s @ butlast old)" by simp
    ultimately have "prefix old (a # s @ butlast old)"
      by (metis prefix_length_prefix prefixI)
    with np show False ..
  qed
  with Cons.IH [OF Cons.prems(1) ns] show ?case by simp
qed


subsection \<open>Where the search text can reappear\<close>

lemma prefix_append_cases:
  "prefix v (new @ x) \<Longrightarrow> prefix v new \<or> prefix new v"
  by (auto simp: prefix_append)

lemma no_overlap_tail:
  "no_overlap p new \<Longrightarrow> i < length new \<Longrightarrow> \<not> prefix p (drop i new) \<and> \<not> prefix (drop i new) p"
  by (simp add: no_overlap_def list_all_iff)

lemma no_overlap_head:
  "no_overlap p new \<Longrightarrow> 0 < j \<Longrightarrow> j < length p \<Longrightarrow> \<not> prefix (drop j p) new \<and> \<not> prefix new (drop j p)"
  by (simp add: no_overlap_def list_all_iff)

lemma prefix_tail_replace_from:
  "no_overlap p new \<Longrightarrow> 0 < j \<Longrightarrow> prefix (drop j p) (replace_from old new s) \<Longrightarrow> prefix (drop j p) s"
proof (induction old new s arbitrary: j rule: replace_from.induct)
  case (1 old new)
  then show ?case by simp
next
  case (2 old new c cs)
  note no = "2.prems"(1) and jpos = "2.prems"(2) and pre = "2.prems"(3)
  show ?case
  proof (cases "j < length p")
    case False
    then show ?thesis by simp
  next
    case jl: True
    show ?thesis
    proof (cases "old \<noteq> [] \<and> prefix old (c # cs)")
      case True
      with pre have "prefix (drop j p) (new @ replace_from old new (drop (length old) (c # cs)))"
        by simp
      then have "prefix (drop j p) new \<or> prefix new (drop j p)"
        by (rule prefix_append_cases)
      with no_overlap_head [OF no jpos jl] show ?thesis by blast
    next
      case False
      with pre have pr: "prefix (drop j p) (c # replace_from old new cs)"
        by auto
      from jl have dj: "drop j p = p ! j # drop (Suc j) p"
        by (simp add: Cons_nth_drop_Suc)
      from pr dj have pj: "p ! j = c" and pt: "prefix (drop (Suc j) p) (replace_from old new cs)"
        by simp_all
      from "2.IH"(2) [OF False no _ pt] have "prefix (drop (Suc j) p) cs" by simp
      with pj dj show ?thesis by simp
    qed
  qed
qed

lemma sublist_append_start:
  "sublist p (new @ r) \<Longrightarrow> sublist p r \<or> (\<exists>i<length new. prefix p (drop i new @ r))"
proof (induction new)
  case Nil
  then show ?case by simp
next
  case (Cons a new)
  from Cons.prems have "prefix p (a # new @ r) \<or> sublist p (new @ r)"
    by (simp add: sublist_Cons_right)
  then show ?case
  proof
    assume "prefix p (a # new @ r)"
    then have "prefix p (drop 0 (a # new) @ r)" by simp
    then show ?thesis by (metis length_greater_0_conv list.distinct(1))
  next
    assume "sublist p (new @ r)"
    from Cons.IH [OF this] show ?thesis
    proof
      assume "sublist p r" then show ?thesis by simp
    next
      assume "\<exists>i<length new. prefix p (drop i new @ r)"
      then obtain i where "i < length new" "prefix p (drop i new @ r)" by blast
      then have "Suc i < length (a # new)" "prefix p (drop (Suc i) (a # new) @ r)" by simp_all
      then show ?thesis by blast
    qed
  qed
qed

lemma replace_from_no_occurrence:
  "no_overlap p new \<Longrightarrow> p \<noteq> [] \<Longrightarrow> old \<noteq> [] \<Longrightarrow>
   (\<And>t. suffix t s \<Longrightarrow> prefix p t \<Longrightarrow> prefix old t) \<Longrightarrow>
   \<not> sublist p (replace_from old new s)"
proof (induction old new s rule: replace_from.induct)
  case (1 old new)
  then show ?case by simp
next
  case (2 old new c cs)
  note no = "2.prems"(1) and pne = "2.prems"(2) and one = "2.prems"(3) and occ = "2.prems"(4)
  show ?case
  proof (cases "old \<noteq> [] \<and> prefix old (c # cs)")
    case True
    let ?rest = "drop (length old) (c # cs)"
    have "\<And>t. suffix t ?rest \<Longrightarrow> prefix p t \<Longrightarrow> prefix old t"
      using occ by (meson suffix_drop suffix_order.trans)
    from "2.IH"(1) [OF True no pne one this]
    have ih: "\<not> sublist p (replace_from old new ?rest)" .
    have "\<not> sublist p (new @ replace_from old new ?rest)"
    proof
      assume "sublist p (new @ replace_from old new ?rest)"
      from sublist_append_start [OF this] ih
      obtain i where il: "i < length new" and "prefix p (drop i new @ replace_from old new ?rest)"
        by blast
      then have "prefix p (drop i new) \<or> prefix (drop i new) p"
        using prefix_append_cases by blast
      with no_overlap_tail [OF no il] show False by blast
    qed
    with True show ?thesis by simp
  next
    case False
    have "\<And>t. suffix t cs \<Longrightarrow> prefix p t \<Longrightarrow> prefix old t"
      using occ by (meson suffix_ConsI)
    from "2.IH"(2) [OF False no pne one this]
    have ih: "\<not> sublist p (replace_from old new cs)" .
    from False one have "\<not> prefix old (c # cs)" by simp
    with occ [of "c # cs"] have npc: "\<not> prefix p (c # cs)" by auto
    have "\<not> prefix p (c # replace_from old new cs)"
    proof
      assume a: "prefix p (c # replace_from old new cs)"
      from pne obtain x xs where p: "p = x # xs" by (cases p) auto
      with a have xc: "x = c" and "prefix (drop 1 p) (replace_from old new cs)" by simp_all
      from prefix_tail_replace_from [OF no _ this(2)] have "prefix (drop 1 p) cs" by simp
      with p xc have "prefix p (c # cs)" by simp
      with npc show False ..
    qed
    with ih have "\<not> sublist p (c # replace_from old new cs)"
      by (simp add: sublist_Cons_right)
    moreover from False have "replace_from old new (c # cs) = c # replace_from old new cs"
      by auto
    ultimately show ?thesis by simp
  qed
qed

lemma unbordered_no_border:
  "unbordered p \<Longrightarrow> 0 < k \<Longrightarrow> k < length p \<Longrightarrow> take k p \<noteq> drop (length p - k) p"
  by (simp add: unbordered_def list_all_iff)

lemma unbordered_segment:
  assumes ub: "unbordered old" and ns: "\<not> sublist old pre"
  shows "\<not> sublist old (pre @ butlast old)"
proof
  assume "sublist old (pre @ butlast old)"
  then consider "sublist old pre" | "sublist old (butlast old)"
    | x1 x2 where "old = x1 @ x2" "suffix x1 pre" "prefix x2 (butlast old)"
    by (auto simp: sublist_append)
  then show False
  proof cases
    case 1
    with ns show ?thesis ..
  next
    case 2
    then have "length old \<le> length (butlast old)" by (rule sublist_length_le)
    moreover have "length (butlast old) = length old - 1" by (rule length_butlast)
    moreover from ns have "old \<noteq> []" by auto
    then have "0 < length old" by simp
    ultimately show ?thesis by arith
  next
    case 3
    from ns have one: "old \<noteq> []" by auto
    show ?thesis
    proof (cases "x2 = []")
      case True
      with 3 have "suffix old pre" by simp
      then have "sublist old pre" by simp
      with ns show ?thesis ..
    next
      case False
      let ?k = "length x2"
      from 3(3) have "length x2 \<le> length (butlast old)" by (rule prefix_length_le)
      moreover have "length (butlast old) = length old - 1" by (rule length_butlast)
      moreover from one have "0 < length old" by simp
      ultimately have kl: "?k < length old" by arith
      from False have kp: "0 < ?k" by simp
      from 3(3) have "prefix x2 old"
        by (meson prefix_order.trans prefixeq_butlast)
      then have t: "take ?k old = x2" by (metis append_eq_conv_conj prefixE)
      from 3(1) have d: "drop (length old - ?k) old = x2" by simp
      from unbordered_no_border [OF ub kp kl] t d show ?thesis by simp
    qed
  qed
qed

subsection \<open>Lengths\<close>

lemma length_replace_from:
  "length old \<le> length new \<Longrightarrow> length s \<le> length (replace_from old new s)"
proof (induction old new s rule: replace_from.induct)
  case (1 old new)
  show ?case by simp
next
  case (2 old new c cs)
  show ?case
  proof (cases "old \<noteq> [] \<and> prefix old (c # cs)")
    case True
    from "2.IH"(1) [OF True "2.prems"]
    have "length (drop (length old) (c # cs)) \<le> length (replace_from old new (drop (length old) (c # cs)))" .
    moreover from True have "prefix old (c # cs)" by simp
    then have "length old \<le> length (c # cs)" by (rule prefix_length_le)
    ultimately have "length (c # cs) \<le> length new + length (replace_from old new (drop (length old) (c # cs)))"
      using "2.prems" by simp
    with True show ?thesis by simp
  next
    case False
    from "2.IH"(2) [OF False "2.prems"] have "length cs \<le> length (replace_from old new cs)" .
    moreover from False have "replace_from old new (c # cs) = c # replace_from old new cs" by auto
    ultimately show ?thesis by simp
  qed
qed

lemma length_interleave:
  "length s \<le> length (concat (map (\<lambda>c. c # new) s))"
  by (induction s) simp_all

lemma length_replace:
  "length old \<le> length new \<Longrightarrow> length s \<le> length (replace s old new)"
  using length_interleave [of s new] by (simp add: replace_def length_replace_from)

section \<open>Facts about the four literals\<close>

lemma no_overlap_init_init: "no_overlap old_init_peer new_init_peer"
  by code_simp

lemma no_overlap_init_join: "no_overlap old_init_peer new_join_guest"
  by code_simp

lemma no_overlap_join_join: "no_overlap old_join_guest new_join_guest"
  by code_simp

lemma unbordered_old_init_peer: "unbordered old_init_peer"
  by code_simp

lemma unbordered_old_join_guest: "unbordered old_join_guest"
  by code_simp

lemma old_init_peer_nonempty: "old_init_peer \<noteq> []"
  by (simp add: old_init_peer_def)

lemma old_join_guest_nonempty: "old_join_guest \<noteq> []"
  by (simp add: old_join_guest_def)



section \<open>The three ways a run can end\<close>


lemma main_read_failure:
  assumes "fst (read_text file_path w) = Inl e"
  shows "main w = (Uncaught e, w\<lparr>trace := trace w @ [Open file_path ReadMode]\<rparr>)"
  using assms
  by (auto simp: main_def read_text_def Let_def split: option.splits if_splits)

lemma main_write_failure:
  assumes "fs w file_path = Some f" "readable f" "\<not> writable f"
  shows "main w =
    (Uncaught PermissionError,
     w\<lparr>trace := trace w @ [Open file_path ReadMode, Open file_path WriteMode]\<rparr>)"
  using assms
  by (simp add: main_def read_text_def write_text_def Let_def)




section \<open>Further facts used by the claims\<close>

lemma replace_no_occurrence_same:
  "old \<noteq> [] \<Longrightarrow> no_overlap old new \<Longrightarrow> \<not> sublist old (replace s old new)"
  by (simp add: replace_def replace_from_no_occurrence)

lemma replace_no_occurrence_other:
  assumes "old \<noteq> []" "p \<noteq> []" "no_overlap p new" "\<not> sublist p s"
  shows "\<not> sublist p (replace s old new)"
proof -
  have "\<And>t. suffix t s \<Longrightarrow> prefix p t \<Longrightarrow> prefix old t"
    using assms(4) by (auto simp: sublist_altdef')
  from replace_from_no_occurrence [OF assms(3) assms(2) assms(1) this] assms(1)
  show ?thesis by (simp add: replace_def)
qed

lemma replace_single_occurrence:
  assumes ub: "unbordered old" and pre: "\<not> sublist old pre" and post: "\<not> sublist old post"
  shows "replace (pre @ old @ post) old new = pre @ new @ post"
proof -
  from pre have one: "old \<noteq> []" by auto
  from unbordered_segment [OF ub pre] have "\<not> sublist old (pre @ butlast old)" .
  from replace_from_segment [OF one this, of new post] replace_from_absent [OF post, of new] one
  show ?thesis by (simp add: replace_def)
qed

lemma line_count_append: "line_count (xs @ ys) = line_count xs + line_count ys"
  by (simp add: line_count_def)

lemma line_count_old_init_peer: "line_count old_init_peer = 1"
  by (simp add: line_count_def old_init_peer_def)

lemma line_count_new_init_peer: "line_count new_init_peer = 2"
  by (simp add: line_count_def new_init_peer_def)

lemma replacement_lacks_search:
  "\<not> sublist old_init_peer new_init_peer \<and> \<not> sublist old_join_guest new_join_guest"
  by code_simp

lemma length_literals:
  "length old_init_peer < length new_init_peer \<and> length old_join_guest < length new_join_guest"
  by (simp add: old_init_peer_def new_init_peer_def old_join_guest_def new_join_guest_def)


lemma absent_example:
  "\<not> sublist old_init_peer ''abc'' \<and> \<not> sublist old_join_guest ''abc''"
  by code_simp

lemma single_example:
  "\<not> sublist old_init_peer ''function f() {'' \<and> \<not> sublist old_init_peer ''}''"
  by code_simp

section \<open>The claims\<close>






text \<open>
  C3. A rule whose search text does not occur leaves the content as it is; \<open>replace\<close>
  has no error result, and the script carries on with the other rule.
\<close>

theorem absent_rule_is_identity:
  "(\<not> sublist old content \<longrightarrow> replace content old new = content) \<and>
   (\<not> sublist old_init_peer content \<longrightarrow>
      transform content = replace content old_join_guest new_join_guest) \<and>
   (\<not> sublist old_join_guest (replace content old_init_peer new_init_peer) \<longrightarrow>
      transform content = replace content old_init_peer new_init_peer)"
  by (simp add: transform_def replace_absent)

theorem absent_rule_is_identity_witness:
  "\<not> sublist old_init_peer ''abc'' \<and> replace ''abc'' old_init_peer new_init_peer = ''abc'' \<and>
   transform ''abc'' = ''abc''"
  using absent_rule_is_identity [of old_init_peer "''abc''" new_init_peer]
    absent_rule_is_identity [of old_join_guest "''abc''" new_join_guest] absent_example
  by simp

text \<open>
  C4. When the file cannot be opened for reading, the run ends with that error
  uncaught and a non-zero exit status, the files and the standard output are as before
  and \<^verbatim>\<open>open\<close> was called once, for reading. When the file is read but cannot be
  opened for writing, the run ends the same way with the error of the second
  \<^verbatim>\<open>open\<close>.
\<close>

theorem open_failure_is_fatal:
  "(fst (read_text file_path w) = Inl e \<longrightarrow>
      fst (main w) = Uncaught e \<and> exit_status (fst (main w)) \<noteq> 0 \<and>
      fs (snd (main w)) = fs w \<and> stdout (snd (main w)) = stdout w \<and>
      trace (snd (main w)) = trace w @ [Open file_path ReadMode]) \<and>
   (fst (read_text file_path w) = Inr c \<and>
    fst (write_text file_path (transform c) (snd (read_text file_path w))) = Inl e \<longrightarrow>
      fst (main w) = Uncaught e \<and> exit_status (fst (main w)) \<noteq> 0 \<and>
      fs (snd (main w)) = fs w \<and> stdout (snd (main w)) = stdout w)"
proof (intro conjI impI)
  assume r: "fst (read_text file_path w) = Inl e"
  from main_read_failure [OF r]
  show "fst (main w) = Uncaught e" "exit_status (fst (main w)) \<noteq> 0"
    "fs (snd (main w)) = fs w" "stdout (snd (main w)) = stdout w"
    "trace (snd (main w)) = trace w @ [Open file_path ReadMode]"
    by simp_all
next
  assume a: "fst (read_text file_path w) = Inr c \<and>
    fst (write_text file_path (transform c) (snd (read_text file_path w))) = Inl e"
  then obtain f where f: "fs w file_path = Some f" "readable f" "data f = c"
    by (auto simp: read_text_def Let_def split: option.splits if_splits)
  with a have nw: "\<not> writable f" and e: "e = PermissionError"
    by (auto simp: read_text_def write_text_def Let_def split: if_splits)
  from main_write_failure [OF f(1) f(2) nw] e
  show "fst (main w) = Uncaught e" "exit_status (fst (main w)) \<noteq> 0"
    "fs (snd (main w)) = fs w" "stdout (snd (main w)) = stdout w"
    by simp_all
qed

theorem open_failure_is_fatal_witness:
  "fst (main world_missing) = Uncaught FileNotFoundError \<and>
   exit_status (fst (main world_missing)) = 1 \<and>
   fs (snd (main world_missing)) = fs world_missing \<and>
   fst (main world_read_only) = Uncaught PermissionError \<and>
   exit_status (fst (main world_read_only)) = 1 \<and>
   fs (snd (main world_read_only)) = fs world_read_only"
proof -
  have r: "fst (read_text file_path world_missing) = Inl FileNotFoundError"
    by (simp add: read_text_def world_missing_def world_with_def)
  have s: "fst (read_text file_path world_read_only) = Inr ''abc'' \<and>
    fst (write_text file_path (transform ''abc'') (snd (read_text file_path world_read_only)))
      = Inl PermissionError"
    by (simp add: read_text_def write_text_def world_read_only_def world_with_def)
  from open_failure_is_fatal [of world_missing FileNotFoundError, THEN conjunct1, rule_format, OF r]
    open_failure_is_fatal [of world_read_only PermissionError "''abc''", THEN conjunct2, rule_format, OF s]
  show ?thesis by simp
qed

text \<open>
  C5, amended. For a content holding the two-line \<open>initPeer\<close> block exactly once (the
  content is \<open>pre\<close>, the block, \<open>post\<close>, and the block occurs neither in \<open>pre\<close> nor in
  \<open>post\<close>), the \<open>initPeer\<close> rule yields \<open>pre\<close>, the header line, the new import line,
  the \<open>peerOptions\<close> line, \<open>post\<close>: everything else is unchanged and there is exactly
  one more line break.
\<close>

theorem init_peer_rule_inserts_line:
  "content = pre @ old_init_peer @ post \<Longrightarrow>
   \<not> sublist old_init_peer pre \<Longrightarrow> \<not> sublist old_init_peer post \<Longrightarrow>
   replace content old_init_peer new_init_peer =
     pre @ ''    const initPeer = async () => {'' @ [CHR 0x0A] @
           ''      const { default: Peer } = await import('' @ [CHR 0x27] @ ''peerjs'' @ [CHR 0x27] @ '')'' @ [CHR 0x0A] @
           ''      const peerOptions: ConstructorParameters<typeof Peer>[1] = {}'' @ post \<and>
   content =
     pre @ ''    const initPeer = async () => {'' @ [CHR 0x0A] @
           ''      const peerOptions: ConstructorParameters<typeof Peer>[1] = {}'' @ post \<and>
   line_count (replace content old_init_peer new_init_peer) = line_count content + 1"
proof -
  assume c: "content = pre @ old_init_peer @ post"
    and pre: "\<not> sublist old_init_peer pre" and post: "\<not> sublist old_init_peer post"
  from replace_single_occurrence [OF unbordered_old_init_peer pre post, of new_init_peer] c
  have r: "replace content old_init_peer new_init_peer = pre @ new_init_peer @ post" by simp
  have "line_count (pre @ new_init_peer @ post) = line_count (pre @ old_init_peer @ post) + 1"
    by (simp add: line_count_append line_count_old_init_peer line_count_new_init_peer)
  with r c have "line_count (replace content old_init_peer new_init_peer) = line_count content + 1"
    by simp
  moreover from r have "replace content old_init_peer new_init_peer =
     pre @ ''    const initPeer = async () => {'' @ [CHR 0x0A] @
           ''      const { default: Peer } = await import('' @ [CHR 0x27] @ ''peerjs'' @ [CHR 0x27] @ '')'' @ [CHR 0x0A] @
           ''      const peerOptions: ConstructorParameters<typeof Peer>[1] = {}'' @ post"
    by (simp add: new_init_peer_def)
  moreover from c have "content =
     pre @ ''    const initPeer = async () => {'' @ [CHR 0x0A] @
           ''      const peerOptions: ConstructorParameters<typeof Peer>[1] = {}'' @ post"
    by (simp add: old_init_peer_def)
  ultimately show ?thesis by blast
qed

theorem init_peer_rule_inserts_line_witness:
  "\<not> sublist old_init_peer ''function f() {'' \<and> \<not> sublist old_init_peer ''}'' \<and>
   line_count (replace (''function f() {'' @ old_init_peer @ ''}'') old_init_peer new_init_peer) =
     line_count (''function f() {'' @ old_init_peer @ ''}'') + 1"
proof -
  from single_example have pre: "\<not> sublist old_init_peer ''function f() {''"
    and post: "\<not> sublist old_init_peer ''}''" by simp_all
  from init_peer_rule_inserts_line [OF refl pre post, THEN conjunct2, THEN conjunct2] pre post
  show ?thesis by (intro conjI)
qed

text \<open>
  C5 as stated speaks of any content that contains the block. The rule replaces
  every occurrence, so a content that holds the block twice gains two lines.
\<close>

theorem init_peer_rule_two_blocks:
  "sublist old_init_peer (old_init_peer @ [CHR 0x0A] @ old_init_peer) \<and>
   line_count (replace (old_init_peer @ [CHR 0x0A] @ old_init_peer) old_init_peer new_init_peer) =
     line_count (old_init_peer @ [CHR 0x0A] @ old_init_peer) + 2"
  by code_simp





text \<open>
  C8. Applying the two rules a second time changes nothing, and neither replacement
  contains its search text. (That alone would not exclude an occurrence across the end
  of an inserted replacement, or an \<open>initPeer\<close> block created by the second rule; the
  proof uses \<open>no_overlap\<close> for the three pairs involved.)
\<close>

theorem transform_idempotent:
  "transform (transform content) = transform content \<and>
   \<not> sublist old_init_peer new_init_peer \<and> \<not> sublist old_join_guest new_join_guest"
proof -
  let ?a = "replace content old_init_peer new_init_peer"
  let ?b = "replace ?a old_join_guest new_join_guest"
  have a1: "\<not> sublist old_init_peer ?a"
    using old_init_peer_nonempty no_overlap_init_init by (rule replace_no_occurrence_same)
  have b1: "\<not> sublist old_init_peer ?b"
    using old_join_guest_nonempty old_init_peer_nonempty no_overlap_init_join a1
    by (rule replace_no_occurrence_other)
  have b2: "\<not> sublist old_join_guest ?b"
    using old_join_guest_nonempty no_overlap_join_join by (rule replace_no_occurrence_same)
  have "replace ?b old_init_peer new_init_peer = ?b" using b1 by (rule replace_absent)
  moreover have "replace ?b old_join_guest new_join_guest = ?b" using b2 by (rule replace_absent)
  ultimately have "transform (transform content) = transform content"
    by (simp add: transform_def)
  with replacement_lacks_search show ?thesis by simp
qed

text \<open>
  C9. The transformed content is never shorter than the input, and each replacement
  is strictly longer than its search text.
\<close>

theorem transform_never_shrinks:
  "length content \<le> length (transform content) \<and>
   length old_init_peer < length new_init_peer \<and>
   length old_join_guest < length new_join_guest"
proof -
  have "length content \<le> length (replace content old_init_peer new_init_peer)"
    using length_literals by (simp add: length_replace)
  also have "\<dots> \<le> length (transform content)"
    unfolding transform_def using length_literals by (simp add: length_replace)
  finally show ?thesis using length_literals by simp
qed



end
